theory Spec2Isabelle
  imports Complex_Main
begin

section \<open>Floating-point values in exact arithmetic\<close>

text \<open>
  The sampler of \<^verbatim>\<open>app_hbm_galaxy_evolution.ipynb\<close> computes with numpy
  \<^verbatim>\<open>float64\<close> values. A finite float is modelled as the real number it
  stands for, with exact arithmetic (no rounding, no overflow, no signed zero); the three
  special values of IEEE 754 that the code relies on are kept: \<open>-inf\<close> marks an invalid
  histogram, and \<open>nan\<close> arises from \<open>inf - inf\<close>, \<open>0 / 0\<close>, \<open>0 * inf\<close> and the logarithm
  of a negative number. What is proved of sums, products and logarithms is therefore
  proved of the real numbers the code approximates; the rounded operations of the next
  section show where the doubles themselves behave otherwise.
\<close>

datatype fl = Fin real | PInf | NInf | NaN

fun isfinite :: "fl \<Rightarrow> bool" where
  "isfinite (Fin x) = True"
| "isfinite PInf = False"
| "isfinite NInf = False"
| "isfinite NaN = False"

fun fneg :: "fl \<Rightarrow> fl" where
  "fneg (Fin x) = Fin (- x)"
| "fneg PInf = NInf"
| "fneg NInf = PInf"
| "fneg NaN = NaN"

fun fabs :: "fl \<Rightarrow> fl" where
  "fabs (Fin x) = Fin \<bar>x\<bar>"
| "fabs PInf = PInf"
| "fabs NInf = PInf"
| "fabs NaN = NaN"

fun fadd :: "fl \<Rightarrow> fl \<Rightarrow> fl" where
  "fadd (Fin x) (Fin y) = Fin (x + y)"
| "fadd (Fin x) PInf = PInf"
| "fadd (Fin x) NInf = NInf"
| "fadd (Fin x) NaN = NaN"
| "fadd PInf (Fin y) = PInf"
| "fadd PInf PInf = PInf"
| "fadd PInf NInf = NaN"
| "fadd PInf NaN = NaN"
| "fadd NInf (Fin y) = NInf"
| "fadd NInf PInf = NaN"
| "fadd NInf NInf = NInf"
| "fadd NInf NaN = NaN"
| "fadd NaN b = NaN"

definition fsub :: "fl \<Rightarrow> fl \<Rightarrow> fl" where
  "fsub a b = fadd a (fneg b)"

text \<open>
  The sign of an infinity times a finite value; zero times an infinity is \<open>nan\<close>.
\<close>

definition inf_times :: "fl \<Rightarrow> real \<Rightarrow> fl" where
  "inf_times a y = (if y = 0 then NaN else if 0 < y then a else fneg a)"

fun fmul :: "fl \<Rightarrow> fl \<Rightarrow> fl" where
  "fmul (Fin x) (Fin y) = Fin (x * y)"
| "fmul (Fin x) PInf = inf_times PInf x"
| "fmul (Fin x) NInf = inf_times NInf x"
| "fmul (Fin x) NaN = NaN"
| "fmul PInf (Fin y) = inf_times PInf y"
| "fmul PInf PInf = PInf"
| "fmul PInf NInf = NInf"
| "fmul PInf NaN = NaN"
| "fmul NInf (Fin y) = inf_times NInf y"
| "fmul NInf PInf = NInf"
| "fmul NInf NInf = PInf"
| "fmul NInf NaN = NaN"
| "fmul NaN b = NaN"

text \<open>
  numpy's true division of floats never raises: a finite nonzero value over zero is an
  infinity of the sign of the numerator (the zero of the model is the positive one),
  \<open>0 / 0\<close> and \<open>inf / inf\<close> are \<open>nan\<close>, and a finite value over an infinity is zero.
\<close>

fun fdiv :: "fl \<Rightarrow> fl \<Rightarrow> fl" where
  "fdiv (Fin x) (Fin y) =
     (if y \<noteq> 0 then Fin (x / y)
      else if x = 0 then NaN else if 0 < x then PInf else NInf)"
| "fdiv (Fin x) PInf = Fin 0"
| "fdiv (Fin x) NInf = Fin 0"
| "fdiv (Fin x) NaN = NaN"
| "fdiv PInf (Fin y) = (if 0 \<le> y then PInf else NInf)"
| "fdiv NInf (Fin y) = (if 0 \<le> y then NInf else PInf)"
| "fdiv PInf b = NaN"
| "fdiv NInf b = NaN"
| "fdiv NaN b = NaN"

text \<open>The comparison \<open>a < b\<close> of floats: false whenever an operand is \<open>nan\<close>.\<close>

fun flt :: "fl \<Rightarrow> fl \<Rightarrow> bool" where
  "flt (Fin x) (Fin y) = (x < y)"
| "flt (Fin x) PInf = True"
| "flt NInf (Fin y) = True"
| "flt NInf PInf = True"
| "flt a b = False"

text \<open>
  \<^verbatim>\<open>np.log\<close>: \<open>-inf\<close> at zero and \<open>nan\<close> below zero (numpy warns and goes on).
\<close>

fun flog :: "fl \<Rightarrow> fl" where
  "flog (Fin x) = (if 0 < x then Fin (ln x) else if x = 0 then NInf else NaN)"
| "flog PInf = PInf"
| "flog NInf = NaN"
| "flog NaN = NaN"

text \<open>
  Python's builtin \<^verbatim>\<open>min(a, b)\<close> returns \<open>b\<close> when \<open>b < a\<close> and \<open>a\<close> otherwise, so
  a \<open>nan\<close> in first position is returned.
\<close>

definition py_min :: "fl \<Rightarrow> fl \<Rightarrow> fl" where
  "py_min a b = (if flt b a then b else a)"

text \<open>\<^verbatim>\<open>np.min\<close> over an array propagates \<open>nan\<close>.\<close>

definition np_min2 :: "fl \<Rightarrow> fl \<Rightarrow> fl" where
  "np_min2 a b = (if a = NaN \<or> b = NaN then NaN else if flt b a then b else a)"

primrec np_min :: "fl \<Rightarrow> fl list \<Rightarrow> fl" where
  "np_min a [] = a"
| "np_min a (b # bs) = np_min (np_min2 a b) bs"

section \<open>Rounding to binary64\<close>

text \<open>
  The theorems of this theory are about exact arithmetic. Where a property of exact
  arithmetic is not one of the doubles the code computes with, the difference is shown on
  rounded operations: every finite result is rounded to the nearest number with a
  significand of 53 bits, ties to the even one, as IEEE 754 binary64 does in its normal
  range (overflow and subnormal numbers are left out).
\<close>

definition rne :: "real \<Rightarrow> int" where
  "rne y = (let f = \<lfloor>y\<rfloor> in
              if y - of_int f < 1 / 2 then f
              else if 1 / 2 < y - of_int f then f + 1
              else if even f then f else f + 1)"

definition round53 :: "real \<Rightarrow> real" where
  "round53 x = (if x = 0 then 0
                else let u = 2 powi (\<lfloor>log 2 \<bar>x\<bar>\<rfloor> - 52) in u * of_int (rne (x / u)))"

fun fround :: "fl \<Rightarrow> fl" where
  "fround (Fin x) = Fin (round53 x)"
| "fround PInf = PInf"
| "fround NInf = NInf"
| "fround NaN = NaN"

definition fadd64 :: "fl \<Rightarrow> fl \<Rightarrow> fl" where
  "fadd64 a b = fround (fadd a b)"

definition fsub64 :: "fl \<Rightarrow> fl \<Rightarrow> fl" where
  "fsub64 a b = fround (fsub a b)"

definition fmul64 :: "fl \<Rightarrow> fl \<Rightarrow> fl" where
  "fmul64 a b = fround (fmul a b)"

section \<open>Arrays\<close>

datatype py_error = ValueError | IndexError | TypeError

type_synonym vec = "fl list"

text \<open>
  A two-dimensional array of shape \<open>(length (rows A), ncols A)\<close>; every row of a
  well-formed array has \<open>ncols A\<close> entries.
\<close>

record ndarray2 =
  ncols :: nat
  rows :: "vec list"

definition wf_array :: "ndarray2 \<Rightarrow> bool" where
  "wf_array A = list_all (\<lambda>r. length r = ncols A) (rows A)"

definition np_zeros :: "nat \<Rightarrow> vec" where
  "np_zeros n = replicate n (Fin 0)"

primrec np_sum :: "vec \<Rightarrow> fl" where
  "np_sum [] = Fin 0"
| "np_sum (x # xs) = fadd x (np_sum xs)"

text \<open>Elementwise operations of two arrays of the same length, and with a scalar.\<close>

definition vadd :: "vec \<Rightarrow> vec \<Rightarrow> vec" where
  "vadd xs ys = map2 fadd xs ys"

definition vsub :: "vec \<Rightarrow> vec \<Rightarrow> vec" where
  "vsub xs ys = map2 fsub xs ys"

definition vscale :: "vec \<Rightarrow> fl \<Rightarrow> vec" where
  "vscale xs c = map (\<lambda>x. fmul x c) xs"

definition vdiv :: "vec \<Rightarrow> fl \<Rightarrow> vec" where
  "vdiv xs c = map (\<lambda>x. fdiv x c) xs"

text \<open>\<^verbatim>\<open>np.dot(pdfs, nz)\<close>: one inner product per row; the shapes must agree.\<close>

definition inner :: "vec \<Rightarrow> vec \<Rightarrow> fl" where
  "inner r nz = np_sum (map2 fmul r nz)"

definition np_dot :: "ndarray2 \<Rightarrow> vec \<Rightarrow> py_error + vec" where
  "np_dot A nz =
     (if ncols A = length nz then Inr (map (\<lambda>r. inner r nz) (rows A))
      else Inl ValueError)"

text \<open>\<^verbatim>\<open>pdfs[:, i]\<close>: the column \<open>i\<close>, an IndexError out of range.\<close>

definition column :: "ndarray2 \<Rightarrow> nat \<Rightarrow> py_error + vec" where
  "column A i = (if i < ncols A then Inr (map (\<lambda>r. r ! i) (rows A)) else Inl IndexError)"

section \<open>The likelihood: \<^verbatim>\<open>loglike_nz\<close>\<close>

text \<open>
  The local \<^verbatim>\<open>perturb\<close> is the float \<open>0.\<close> unless both a pair and a step are given,
  when it is the array \<^verbatim>\<open>pair_step * (pdfs[:, i] - pdfs[:, j])\<close>.
\<close>

datatype perturbation = PScalar fl | PArray vec

definition pair_perturb ::
  "ndarray2 \<Rightarrow> (nat \<times> nat) option \<Rightarrow> fl option \<Rightarrow> py_error + perturbation" where
  "pair_perturb pdfs pair pair_step =
     (case pair of
        None \<Rightarrow> Inr (PScalar (Fin 0))
      | Some (i, j) \<Rightarrow>
          (case pair_step of
             None \<Rightarrow> Inr (PScalar (Fin 0))
           | Some step \<Rightarrow>
               (case column pdfs i of
                  Inl e \<Rightarrow> Inl e
                | Inr ci \<Rightarrow>
                    (case column pdfs j of
                       Inl e \<Rightarrow> Inl e
                     | Inr cj \<Rightarrow> Inr (PArray (map (fmul step) (vsub ci cj)))))))"

text \<open>
  \<^verbatim>\<open>overlap + perturb\<close> under numpy's broadcasting: arrays of equal length add
  elementwise, an array of length one is stretched, any other pair of lengths is a
  ValueError.
\<close>

definition add_perturb :: "vec \<Rightarrow> perturbation \<Rightarrow> py_error + vec" where
  "add_perturb overlap perturb =
     (case perturb of
        PScalar c \<Rightarrow> Inr (map (\<lambda>x. fadd x c) overlap)
      | PArray v \<Rightarrow>
          if length overlap = length v then Inr (vadd overlap v)
          else if length overlap = 1 then Inr (map (fadd (hd overlap)) v)
          else if length v = 1 then Inr (map (\<lambda>x. fadd x (hd v)) overlap)
          else Inl ValueError)"

text \<open>
  \<^verbatim>\<open>np.any(~np.isfinite(nz) | (nz < 0.))\<close>, the test of the invalid branch.
\<close>

definition nz_invalid :: "vec \<Rightarrow> bool" where
  "nz_invalid nz = list_ex (\<lambda>x. \<not> isfinite x \<or> flt x (Fin 0)) nz"

text \<open>
  The function returns a float, or a pair of a float and an array when
  \<^verbatim>\<open>return_overlap\<close> is set.
\<close>

datatype ll_result = LnLike fl | LnLikeOverlap fl vec

definition ll_return :: "bool \<Rightarrow> fl \<Rightarrow> vec \<Rightarrow> ll_result" where
  "ll_return return_overlap lnlike ov =
     (if return_overlap then LnLikeOverlap lnlike ov else LnLike lnlike)"

definition loglike_nz ::
  "vec \<Rightarrow> ndarray2 \<Rightarrow> vec option \<Rightarrow> bool \<Rightarrow> (nat \<times> nat) option \<Rightarrow> fl option
     \<Rightarrow> py_error + ll_result" where
  "loglike_nz nz pdfs overlap return_overlap pair pair_step =
     (if nz_invalid nz then
        Inr (ll_return return_overlap NInf
               (map (\<lambda>x. fadd x (Fin 0)) (np_zeros (length (rows pdfs)))))
      else
        (case (case overlap of None \<Rightarrow> np_dot pdfs nz | Some ov \<Rightarrow> Inr ov) of
           Inl e \<Rightarrow> Inl e
         | Inr ov \<Rightarrow>
             (case pair_perturb pdfs pair pair_step of
                Inl e \<Rightarrow> Inl e
              | Inr perturb \<Rightarrow>
                  (case add_perturb ov perturb of
                     Inl e \<Rightarrow> Inl e
                   | Inr s \<Rightarrow> Inr (ll_return return_overlap (np_sum (map flog s)) s)))))"

section \<open>The random source\<close>

text \<open>
  The sampler draws from a \<^verbatim>\<open>numpy.random.RandomState\<close> through three methods
  only. The generator is a state of any type \<open>'r\<close> with one function per method, each
  returning the draw and the next state: \<^verbatim>\<open>choice(Ndim, size=2, replace=False)\<close>,
  \<^verbatim>\<open>randn()\<close> and \<^verbatim>\<open>exponential()\<close>. The two floats drawn are finite.
\<close>

record 'r random_state =
  rs_choice :: "nat \<Rightarrow> 'r \<Rightarrow> (nat \<times> nat) \<times> 'r"
  rs_randn :: "'r \<Rightarrow> real \<times> 'r"
  rs_exponential :: "'r \<Rightarrow> real \<times> 'r"

text \<open>
  Drawing two indices without replacement from fewer than two raises a ValueError.
\<close>

definition choice_pair ::
  "'r random_state \<Rightarrow> nat \<Rightarrow> 'r \<Rightarrow> py_error + (nat \<times> nat) \<times> 'r" where
  "choice_pair G Ndim s = (if Ndim < 2 then Inl ValueError else Inr (rs_choice G Ndim s))"

text \<open>
  \<^verbatim>\<open>pairs = [rstate.choice(Ndim, size=2, replace=False) for i in range(thin)]\<close>
\<close>

primrec draw_pairs ::
  "'r random_state \<Rightarrow> nat \<Rightarrow> nat \<Rightarrow> 'r \<Rightarrow> py_error + (nat \<times> nat) list \<times> 'r" where
  "draw_pairs G Ndim 0 s = Inr ([], s)"
| "draw_pairs G Ndim (Suc k) s =
     (case choice_pair G Ndim s of
        Inl e \<Rightarrow> Inl e
      | Inr (p, s1) \<Rightarrow>
          (case draw_pairs G Ndim k s1 of
             Inl e \<Rightarrow> Inl e
           | Inr (ps, s2) \<Rightarrow> Inr (p # ps, s2)))"

section \<open>The sampler: \<^verbatim>\<open>population_sampler\<close>\<close>

record population_sampler =
  pdfs :: ndarray2
  samples :: "vec list"
  samples_lnp :: "fl list"

definition init_sampler :: "ndarray2 \<Rightarrow> population_sampler" where
  "init_sampler P = \<lparr>pdfs = P, samples = [], samples_lnp = []\<rparr>"

definition reset :: "population_sampler \<Rightarrow> population_sampler" where
  "reset S = S\<lparr>samples := [], samples_lnp := []\<rparr>"

definition results :: "population_sampler \<Rightarrow> vec list \<times> fl list" where
  "results S = (samples S, samples_lnp S)"

text \<open>
  \<^verbatim>\<open>self.pdfs.sum(axis=0) / self.pdfs.sum()\<close>, the stacked PDFs.
\<close>

definition sum_axis0 :: "ndarray2 \<Rightarrow> vec" where
  "sum_axis0 A = map (\<lambda>i. np_sum (map (\<lambda>r. r ! i) (rows A))) [0..<ncols A]"

definition sum_all :: "ndarray2 \<Rightarrow> fl" where
  "sum_all A = np_sum (map np_sum (rows A))"

definition stacked :: "ndarray2 \<Rightarrow> vec" where
  "stacked A = vdiv (sum_axis0 A) (sum_all A)"

text \<open>
  The prior given by the caller, or the default that returns \<open>0.\<close> everywhere. The
  extra arguments \<^verbatim>\<open>prior_args\<close> and \<^verbatim>\<open>prior_kwargs\<close> are part of the function.
\<close>

definition resolve_prior :: "(vec \<Rightarrow> fl) option \<Rightarrow> vec \<Rightarrow> fl" where
  "resolve_prior logprior_nz =
     (case logprior_nz of None \<Rightarrow> (\<lambda>pos. Fin 0) | Some f \<Rightarrow> f)"

text \<open>The working state of a run: position, log-posterior and cached overlaps.\<close>

record chain =
  c_pos :: vec
  c_lnpost :: fl
  c_overlap :: vec

text \<open>
  \<^verbatim>\<open>t = np.zeros_like(pos); t[pair] = (1, -1)\<close>: the second write wins on equal
  indices, and an index beyond the array is an IndexError.
\<close>

definition basis_vector :: "vec \<Rightarrow> nat \<times> nat \<Rightarrow> py_error + vec" where
  "basis_vector p pair =
     (case pair of (i, j) \<Rightarrow>
        if i < length p \<and> j < length p
        then Inr ((np_zeros (length p))[i := Fin 1, j := Fin (- 1)])
        else Inl IndexError)"

text \<open>
  \<^verbatim>\<open>scale = 1e-4 * np.min(np.append(pos[pair], 1. - pos[pair]))\<close>, evaluated after
  the indices have been checked by the assignment to \<open>t\<close>.
\<close>

definition pair_scale :: "vec \<Rightarrow> nat \<times> nat \<Rightarrow> fl" where
  "pair_scale p pair =
     (case pair of (i, j) \<Rightarrow>
        fmul (Fin (1 / 10000))
          (np_min (p ! i) [p ! j, fsub (Fin 1) (p ! i), fsub (Fin 1) (p ! j)]))"

text \<open>
  The numerical gradient: the log-posterior at \<open>+scale/2\<close> minus the one at
  \<open>-scale/2\<close>, over \<open>scale\<close>. Unpacking the wrong kind of result is a TypeError.
\<close>

definition num_gradient ::
  "ndarray2 \<Rightarrow> (vec \<Rightarrow> fl) \<Rightarrow> chain \<Rightarrow> nat \<times> nat \<Rightarrow> vec \<Rightarrow> fl \<Rightarrow> py_error + fl" where
  "num_gradient P logprior c pair t scale =
     (case loglike_nz (c_pos c) P (Some (c_overlap c)) False (Some pair)
             (Some (fdiv scale (Fin 2))) of
        Inl e \<Rightarrow> Inl e
      | Inr (LnLikeOverlap l ov) \<Rightarrow> Inl TypeError
      | Inr (LnLike l1) \<Rightarrow>
          let lnp1 = fadd l1 (logprior (vadd (c_pos c) (vdiv (vscale t scale) (Fin 2)))) in
          (case loglike_nz (c_pos c) P (Some (c_overlap c)) False (Some pair)
                  (Some (fdiv (fneg scale) (Fin 2))) of
             Inl e \<Rightarrow> Inl e
           | Inr (LnLikeOverlap l ov) \<Rightarrow> Inl TypeError
           | Inr (LnLike l2) \<Rightarrow>
               let lnp2 = fadd l2 (logprior (vsub (c_pos c) (vdiv (vscale t scale) (Fin 2))))
               in Inr (fdiv (fsub lnp1 lnp2) scale)))"

text \<open>
  \<^verbatim>\<open>if grad != 0.: gscale = min(abs(1. / grad), abs(scale * 1e4))\<close>,
  \<^verbatim>\<open>else: gscale = abs(scale)\<close>.
\<close>

definition proposal_scale :: "fl \<Rightarrow> fl \<Rightarrow> fl" where
  "proposal_scale grad scale =
     (if grad \<noteq> Fin 0
      then py_min (fabs (fdiv (Fin 1) grad)) (fabs (fmul scale (Fin 10000)))
      else fabs scale)"

text \<open>The Metropolis test \<^verbatim>\<open>-rstate.exponential() < lnpost_new - lnpost\<close>.\<close>

definition mh_accept :: "real \<Rightarrow> fl \<Rightarrow> fl \<Rightarrow> bool" where
  "mh_accept e lnpost_new lnpost = flt (fneg (Fin e)) (fsub lnpost_new lnpost)"

text \<open>One Metropolis-Hastings proposal for the pair.\<close>

definition mh_step ::
  "'r random_state \<Rightarrow> ndarray2 \<Rightarrow> (vec \<Rightarrow> fl) \<Rightarrow> nat \<times> nat \<Rightarrow> vec \<Rightarrow> fl
     \<Rightarrow> chain \<times> 'r \<Rightarrow> py_error + chain \<times> 'r" where
  "mh_step G P logprior pair t gscale cs =
     (case cs of (c, s) \<Rightarrow>
      (case rs_randn G s of (n, s1) \<Rightarrow>
         let z = fmul (Fin n) gscale;
             pos_new = vadd (c_pos c) (vscale t z)
         in (case loglike_nz pos_new P (Some (c_overlap c)) True (Some pair) (Some z) of
               Inl e \<Rightarrow> Inl e
             | Inr (LnLike l) \<Rightarrow> Inl TypeError
             | Inr (LnLikeOverlap lnlike_new overlap_new) \<Rightarrow>
                 let lnprior_new = logprior pos_new;
                     lnpost_new = fadd lnlike_new lnprior_new
                 in (case rs_exponential G s1 of (e, s2) \<Rightarrow>
                       if mh_accept e lnpost_new (c_lnpost c)
                       then Inr (\<lparr>c_pos = pos_new, c_lnpost = lnpost_new,
                                  c_overlap = overlap_new\<rparr>, s2)
                       else Inr (c, s2)))))"

text \<open>\<^verbatim>\<open>for k in range(mh_steps)\<close>\<close>

primrec mh_loop ::
  "'r random_state \<Rightarrow> ndarray2 \<Rightarrow> (vec \<Rightarrow> fl) \<Rightarrow> nat \<times> nat \<Rightarrow> vec \<Rightarrow> fl \<Rightarrow> nat
     \<Rightarrow> chain \<times> 'r \<Rightarrow> py_error + chain \<times> 'r" where
  "mh_loop G P logprior pair t gscale 0 cs = Inr cs"
| "mh_loop G P logprior pair t gscale (Suc k) cs =
     (case mh_step G P logprior pair t gscale cs of
        Inl e \<Rightarrow> Inl e
      | Inr cs1 \<Rightarrow> mh_loop G P logprior pair t gscale k cs1)"

text \<open>The body of \<^verbatim>\<open>for pair in pairs\<close>: one Gibbs step.\<close>

definition gibbs_step ::
  "'r random_state \<Rightarrow> ndarray2 \<Rightarrow> (vec \<Rightarrow> fl) \<Rightarrow> nat \<Rightarrow> nat \<times> nat
     \<Rightarrow> chain \<times> 'r \<Rightarrow> py_error + chain \<times> 'r" where
  "gibbs_step G P logprior mh_steps pair cs =
     (case cs of (c, s) \<Rightarrow>
      (case basis_vector (c_pos c) pair of
         Inl e \<Rightarrow> Inl e
       | Inr t \<Rightarrow>
           let scale = pair_scale (c_pos c) pair
           in (case num_gradient P logprior c pair t scale of
                 Inl e \<Rightarrow> Inl e
               | Inr grad \<Rightarrow>
                   let gscale = proposal_scale grad scale
                   in mh_loop G P logprior pair t gscale mh_steps (c, s))))"

primrec gibbs_loop ::
  "'r random_state \<Rightarrow> ndarray2 \<Rightarrow> (vec \<Rightarrow> fl) \<Rightarrow> nat \<Rightarrow> (nat \<times> nat) list
     \<Rightarrow> chain \<times> 'r \<Rightarrow> py_error + chain \<times> 'r" where
  "gibbs_loop G P logprior mh_steps [] cs = Inr cs"
| "gibbs_loop G P logprior mh_steps (pair # pairs) cs =
     (case gibbs_step G P logprior mh_steps pair cs of
        Inl e \<Rightarrow> Inl e
      | Inr cs1 \<Rightarrow> gibbs_loop G P logprior mh_steps pairs cs1)"

text \<open>
  One pass of \<^verbatim>\<open>for i in range(Niter)\<close> up to its \<^verbatim>\<open>yield\<close>: all the pairs are
  drawn first, then the Gibbs steps run in order.
\<close>

definition sample_iteration ::
  "'r random_state \<Rightarrow> ndarray2 \<Rightarrow> (vec \<Rightarrow> fl) \<Rightarrow> nat \<Rightarrow> nat
     \<Rightarrow> chain \<times> 'r \<Rightarrow> py_error + chain \<times> 'r" where
  "sample_iteration G P logprior thin mh_steps cs =
     (case cs of (c, s) \<Rightarrow>
      (case draw_pairs G (ncols P) thin s of
         Inl e \<Rightarrow> Inl e
       | Inr (pairs, s1) \<Rightarrow> gibbs_loop G P logprior mh_steps pairs (c, s1)))"

text \<open>
  The generator yields one pair per iteration; an exception ends it after the pairs
  already yielded. The result is the list of yields and either the error raised or the
  state of the random source at the end.
\<close>

primrec sample_loop ::
  "'r random_state \<Rightarrow> ndarray2 \<Rightarrow> (vec \<Rightarrow> fl) \<Rightarrow> nat \<Rightarrow> nat \<Rightarrow> nat
     \<Rightarrow> chain \<times> 'r \<Rightarrow> (vec \<times> fl) list \<times> (py_error + 'r)" where
  "sample_loop G P logprior thin mh_steps 0 cs = ([], Inr (snd cs))"
| "sample_loop G P logprior thin mh_steps (Suc n) cs =
     (case sample_iteration G P logprior thin mh_steps cs of
        Inl e \<Rightarrow> ([], Inl e)
      | Inr cs1 \<Rightarrow>
          (case sample_loop G P logprior thin mh_steps n cs1 of
             (ys, r) \<Rightarrow> ((c_pos (fst cs1), c_lnpost (fst cs1)) # ys, r)))"

text \<open>
  The start of \<^verbatim>\<open>sample\<close>: the position is \<^verbatim>\<open>pos_init\<close>, or the stacked PDFs
  when it is \<open>None\<close>; the trace of the sampler is not read.
\<close>

definition sample_start :: "ndarray2 \<Rightarrow> vec option \<Rightarrow> vec" where
  "sample_start P pos_init = (case pos_init of None \<Rightarrow> stacked P | Some p \<Rightarrow> p)"

definition sample_init ::
  "ndarray2 \<Rightarrow> (vec \<Rightarrow> fl) \<Rightarrow> vec option \<Rightarrow> py_error + chain" where
  "sample_init P logprior pos_init =
     (let p = sample_start P pos_init
      in (case loglike_nz p P None True None None of
            Inl e \<Rightarrow> Inl e
          | Inr (LnLike l) \<Rightarrow> Inl TypeError
          | Inr (LnLikeOverlap lnlike ov) \<Rightarrow>
              let lnprior = logprior p
              in Inr \<lparr>c_pos = p, c_lnpost = fadd lnlike lnprior, c_overlap = ov\<rparr>))"

definition sample ::
  "population_sampler \<Rightarrow> 'r random_state \<Rightarrow> nat \<Rightarrow> (vec \<Rightarrow> fl) option \<Rightarrow> vec option
     \<Rightarrow> nat \<Rightarrow> nat \<Rightarrow> 'r \<Rightarrow> (vec \<times> fl) list \<times> (py_error + 'r)" where
  "sample S G Niter logprior_nz pos_init thin mh_steps s =
     (let logprior = resolve_prior logprior_nz
      in (case sample_init (pdfs S) logprior pos_init of
            Inl e \<Rightarrow> ([], Inl e)
          | Inr c \<Rightarrow> sample_loop G (pdfs S) logprior thin mh_steps Niter (c, s)))"

text \<open>
  \<^verbatim>\<open>run_mcmc\<close> resolves a starting position into its local \<^verbatim>\<open>pos\<close>: the argument,
  else the last sample of the trace, else the stacked PDFs.
\<close>

definition run_mcmc_pos :: "population_sampler \<Rightarrow> vec option \<Rightarrow> vec" where
  "run_mcmc_pos S pos_init =
     (case pos_init of
        None \<Rightarrow> (if samples S = [] then stacked (pdfs S) else last (samples S))
      | Some p \<Rightarrow> p)"

text \<open>
  It then calls \<^verbatim>\<open>self.sample(..., pos_init=pos_init, ...)\<close>, passing its argument
  and not the local \<^verbatim>\<open>pos\<close>, and appends every pair yielded. The result is the
  sampler after the call and either the error raised or the state of the random source.
  The counts \<^verbatim>\<open>Niter\<close>, \<^verbatim>\<open>thin\<close> and \<^verbatim>\<open>mh_steps\<close> are natural numbers (a
  negative count runs a loop as often as zero does); the progress line written to the
  standard error stream changes no state and is left out.
\<close>

definition run_mcmc ::
  "population_sampler \<Rightarrow> 'r random_state \<Rightarrow> nat \<Rightarrow> (vec \<Rightarrow> fl) option \<Rightarrow> vec option
     \<Rightarrow> nat \<Rightarrow> nat \<Rightarrow> 'r \<Rightarrow> population_sampler \<times> (py_error + 'r)" where
  "run_mcmc S G Niter logprior_nz pos_init thin mh_steps s =
     (let logprior = resolve_prior logprior_nz;
          p = run_mcmc_pos S pos_init
      in (case sample S G Niter (Some logprior) pos_init thin mh_steps s of
            (ys, r) \<Rightarrow>
              (S\<lparr>samples := samples S @ map fst ys,
                 samples_lnp := samples_lnp S @ map snd ys\<rparr>, r)))"

section \<open>Notions used in the statements\<close>

text \<open>
  The histogram perturbed as the specification words it: \<open>nz'[i] = nz[i] + d\<close> and
  \<open>nz'[j] = nz[j] - d\<close>.
\<close>

definition perturbed :: "vec \<Rightarrow> nat \<Rightarrow> nat \<Rightarrow> fl \<Rightarrow> vec" where
  "perturbed nz i j d = nz[i := fadd (nz ! i) d, j := fsub (nz ! j) d]"

text \<open>
  The two overlap vectors that claim C1 compares, as binary64 computes them:
  \<^verbatim>\<open>overlap + pair_step * (pdfs[:, i] - pdfs[:, j])\<close> from the cached
  \<^verbatim>\<open>np.dot(pdfs, nz)\<close>, and \<^verbatim>\<open>np.dot(pdfs, nz')\<close> for the perturbed histogram, with
  every product, sum and difference rounded; and \<^verbatim>\<open>np.sum(np.log(v))\<close> of such a
  vector.
\<close>

definition inner64 :: "vec \<Rightarrow> vec \<Rightarrow> fl" where
  "inner64 r nz = foldl fadd64 (Fin 0) (map2 fmul64 r nz)"

definition overlap_incremental64 :: "ndarray2 \<Rightarrow> vec \<Rightarrow> nat \<times> nat \<Rightarrow> fl \<Rightarrow> vec" where
  "overlap_incremental64 P nz pair step =
     (case pair of (i, j) \<Rightarrow>
        map (\<lambda>r. fadd64 (inner64 r nz) (fmul64 step (fsub64 (r ! i) (r ! j)))) (rows P))"

definition overlap_full64 :: "ndarray2 \<Rightarrow> vec \<Rightarrow> nat \<times> nat \<Rightarrow> fl \<Rightarrow> vec" where
  "overlap_full64 P nz pair step =
     (case pair of (i, j) \<Rightarrow>
        map (\<lambda>r. inner64 r (nz[i := fadd64 (nz ! i) step, j := fsub64 (nz ! j) step])) (rows P))"

definition lnlike64 :: "vec \<Rightarrow> fl" where
  "lnlike64 v = foldl fadd64 (Fin 0) (map (\<lambda>x. fround (flog x)) v)"

text \<open>An observation table whose entries are all finite.\<close>

definition finite_array :: "ndarray2 \<Rightarrow> bool" where
  "finite_array A = list_all (list_all isfinite) (rows A)"

text \<open>
  What the sampler needs of \<^verbatim>\<open>choice(..., replace=False)\<close>: the two indices drawn
  differ.
\<close>

definition distinct_pairs :: "'r random_state \<Rightarrow> bool" where
  "distinct_pairs G =
     (\<forall>n s. 2 \<le> n \<longrightarrow> fst (fst (rs_choice G n s)) \<noteq> snd (fst (rs_choice G n s)))"


section \<open>A small instance\<close>

text \<open>
  A deterministic random source over a counter, and a table of one observation over
  two bins, on which the theorems below are exercised.
\<close>

definition demo_rstate :: "nat random_state" where
  "demo_rstate =
     \<lparr>rs_choice = (\<lambda>n s. (if even s then (0, 1) else (1, 0), Suc s)),
      rs_randn = (\<lambda>s. (if even s then 1 else - 1, Suc s)),
      rs_exponential = (\<lambda>s. (1, Suc s))\<rparr>"

definition demo_pdfs :: ndarray2 where
  "demo_pdfs = \<lparr>ncols = 2, rows = [[Fin (1 / 2), Fin (1 / 2)]]\<rparr>"

text \<open>A run of two iterations on the small instance, from a fresh sampler.\<close>

definition demo_run :: "population_sampler \<times> (py_error + nat)" where
  "demo_run = run_mcmc (init_sampler demo_pdfs) demo_rstate (Suc (Suc 0)) None None
                (Suc 0) (Suc 0) 0"

text \<open>
  A table of one observation whose second entry is far below the rounding unit of the
  first, for claim C1.
\<close>

definition tiny_pdfs :: ndarray2 where
  "tiny_pdfs = \<lparr>ncols = 2, rows = [[Fin 1, Fin (1 / 2 ^ 60)]]\<rparr>"





section \<open>Properties of the likelihood\<close>

lemma fadd_zero_right [simp]: "fadd x (Fin 0) = x"
  by (cases x) simp_all

lemma map_fadd_zero [simp]: "map (\<lambda>x. fadd x (Fin 0)) xs = xs"
  by (induction xs) simp_all

lemma isfinite_iff: "isfinite x \<longleftrightarrow> (\<exists>r. x = Fin r)"
  by (cases x) simp_all

lemma all_finite_map_Fin: "list_all isfinite xs \<Longrightarrow> \<exists>rs. xs = map Fin rs"
proof (induction xs)
  case Nil
  then show ?case by simp
next
  case (Cons x xs)
  then obtain rs where "xs = map Fin rs" by auto
  moreover from Cons.prems obtain r where "x = Fin r" by (auto simp: isfinite_iff)
  ultimately have "x # xs = map Fin (r # rs)" by simp
  then show ?case by (rule exI)
qed

lemma np_sum_Fin: "np_sum (map Fin rs) = Fin (sum_list rs)"
  by (induction rs) simp_all

lemma inner_Fin:
  "inner (map Fin r) (map Fin a) = Fin (sum_list (map2 (*) r a))"
  unfolding inner_def
proof (induction r arbitrary: a)
  case Nil
  then show ?case by simp
next
  case (Cons x r)
  then show ?case by (cases a) simp_all
qed

lemma sum_list_map2_update:
  fixes r a :: "real list"
  assumes "i < length a" "length r = length a"
  shows "sum_list (map2 (*) r (a[i := v])) = sum_list (map2 (*) r a) + r ! i * (v - a ! i)"
  using assms
proof (induction a arbitrary: i r)
  case Nil
  then show ?case by simp
next
  case (Cons x a)
  then obtain y r' where r: "r = y # r'" by (cases r) auto
  show ?case
  proof (cases i)
    case 0
    then show ?thesis using r by (simp add: algebra_simps)
  next
    case (Suc k)
    then show ?thesis using r Cons by simp
  qed
qed

lemma sum_list_real_update:
  fixes a :: "real list"
  assumes "i < length a"
  shows "sum_list (a[i := v]) = sum_list a + (v - a ! i)"
  using assms
proof (induction a arbitrary: i)
  case Nil
  then show ?case by simp
next
  case (Cons x a)
  then show ?case by (cases i) simp_all
qed

lemma valid_all_finite: "\<not> nz_invalid nz \<Longrightarrow> list_all isfinite nz"
  by (auto simp: nz_invalid_def list_ex_iff list_all_iff)

lemma fadd_Fin_finite: "isfinite (fadd (Fin a) d) \<Longrightarrow> \<exists>r. d = Fin r"
  by (cases d) simp_all

lemma map2_map_map: "map2 f (map g xs) (map h xs) = map (\<lambda>x. f (g x) (h x)) xs"
  by (induction xs) simp_all

lemma inner_perturbed:
  assumes "length rr = length a" "i < length a" "j < length a" "i \<noteq> j"
  shows "inner (map Fin rr) (perturbed (map Fin a) i j (Fin d))
       = fadd (inner (map Fin rr) (map Fin a))
              (fmul (Fin d) (fsub (map Fin rr ! i) (map Fin rr ! j)))"
proof -
  have p: "perturbed (map Fin a) i j (Fin d) = map Fin (a[i := a ! i + d, j := a ! j - d])"
    using assms by (simp add: perturbed_def fsub_def map_update)
  have "sum_list (map2 (*) rr (a[i := a ! i + d, j := a ! j - d]))
      = sum_list (map2 (*) rr a) + d * (rr ! i - rr ! j)"
    using assms by (simp add: sum_list_map2_update algebra_simps)
  then show ?thesis
    using assms unfolding p inner_Fin by (simp add: fsub_def)
qed

lemma loglike_nz_incremental_valid:
  assumes wf: "wf_array P" and fin: "finite_array P"
    and len: "length a = ncols P" and ij: "i < ncols P" "j < ncols P" "i \<noteq> j"
    and v: "\<not> nz_invalid (map Fin a)"
    and v': "\<not> nz_invalid (perturbed (map Fin a) i j (Fin d))"
  shows "loglike_nz (map Fin a) P (Some (map (\<lambda>r. inner r (map Fin a)) (rows P))) ro
           (Some (i, j)) (Some (Fin d))
       = loglike_nz (perturbed (map Fin a) i j (Fin d)) P None ro None None"
proof -
  have row: "fadd (inner r (map Fin a)) (fmul (Fin d) (fsub (r ! i) (r ! j)))
           = inner r (perturbed (map Fin a) i j (Fin d))" if "r \<in> set (rows P)" for r
  proof -
    from that wf fin have "length r = ncols P" "list_all isfinite r"
      by (auto simp: wf_array_def finite_array_def list_all_iff)
    then obtain rr where r: "r = map Fin rr" using all_finite_map_Fin by blast
    with \<open>length r = ncols P\<close> len have "length rr = length a" by simp
    then show ?thesis
      unfolding r using ij len by (simp add: inner_perturbed)
  qed
  have lenp: "length (perturbed (map Fin a) i j (Fin d)) = ncols P"
    using len by (simp add: perturbed_def)
  let ?v = "map (fmul (Fin d)) (vsub (map (\<lambda>r. r ! i) (rows P)) (map (\<lambda>r. r ! j) (rows P)))"
  let ?ov = "map (\<lambda>r. inner r (map Fin a)) (rows P)"
  have v_eq: "?v = map (\<lambda>r. fmul (Fin d) (fsub (r ! i) (r ! j))) (rows P)"
    by (simp add: vsub_def map2_map_map)
  have "vadd ?ov ?v = map (\<lambda>r. inner r (perturbed (map Fin a) i j (Fin d))) (rows P)"
    unfolding v_eq vadd_def map2_map_map using row by simp
  moreover have "length ?ov = length ?v"
    unfolding v_eq by simp
  ultimately have "add_perturb ?ov (PArray ?v)
      = Inr (map (\<lambda>r. inner r (perturbed (map Fin a) i j (Fin d))) (rows P))"
    by (simp add: add_perturb_def)
  moreover have "pair_perturb P (Some (i, j)) (Some (Fin d)) = Inr (PArray ?v)"
    using ij by (simp add: pair_perturb_def column_def)
  moreover have "np_dot P (perturbed (map Fin a) i j (Fin d))
      = Inr (map (\<lambda>r. inner r (perturbed (map Fin a) i j (Fin d))) (rows P))"
    using lenp by (simp add: np_dot_def)
  moreover have "pair_perturb P None None = Inr (PScalar (Fin 0))"
    by (simp add: pair_perturb_def)
  ultimately show ?thesis
    using v v' by (simp add: loglike_nz_def add_perturb_def)
qed

text \<open>
  Claim C4. When a component of the histogram is not finite or is negative, the
  likelihood returns \<open>-inf\<close>, and with \<^verbatim>\<open>return_overlap\<close> set also an all-zero
  array with one entry per observation, whatever the other arguments are.
\<close>

theorem loglike_nz_invalid:
  assumes "x \<in> set nz" and "\<not> isfinite x \<or> flt x (Fin 0)"
  shows "loglike_nz nz P ov False pair pair_step = Inr (LnLike NInf)
       \<and> loglike_nz nz P ov True pair pair_step
           = Inr (LnLikeOverlap NInf (replicate (length (rows P)) (Fin 0)))"
proof -
  from assms have "nz_invalid nz"
    unfolding nz_invalid_def list_ex_iff by blast
  then show ?thesis
    by (simp add: loglike_nz_def ll_return_def np_zeros_def)
qed

theorem loglike_nz_invalid_witness:
  "Fin (- 1 / 2) \<in> set [Fin (3 / 2), Fin (- 1 / 2)]
   \<and> flt (Fin (- 1 / 2)) (Fin 0)
   \<and> loglike_nz [Fin (3 / 2), Fin (- 1 / 2)] \<lparr>ncols = 2, rows = [[Fin 1, Fin 0], [Fin 0, Fin 1]]\<rparr>
        (Some [Fin 1, Fin 1]) False (Some (0, 1)) (Some (Fin 1)) = Inr (LnLike NInf)
   \<and> loglike_nz [Fin (3 / 2), Fin (- 1 / 2)] \<lparr>ncols = 2, rows = [[Fin 1, Fin 0], [Fin 0, Fin 1]]\<rparr>
        (Some [Fin 1, Fin 1]) True (Some (0, 1)) (Some (Fin 1))
        = Inr (LnLikeOverlap NInf [Fin 0, Fin 0])"
  using loglike_nz_invalid [of "Fin (- 1 / 2)" "[Fin (3 / 2), Fin (- 1 / 2)]"
      "\<lparr>ncols = 2, rows = [[Fin 1, Fin 0], [Fin 0, Fin 1]]\<rparr>" "Some [Fin 1, Fin 1]"
      "Some (0, 1)" "Some (Fin 1)"]
  by simp

lemma loglike_nz_both_invalid:
  assumes "nz_invalid nz" "nz_invalid nz'"
  shows "loglike_nz nz P ov ro pair step = loglike_nz nz' P ov' ro pair' step'"
  using assms by (simp add: loglike_nz_def)

text \<open>
  Claim C1, as amended. In exact arithmetic the incremental evaluation, given the cached
  overlaps of \<open>nz\<close>, a pair of distinct bins and a step, equals the full evaluation of
  the perturbed histogram, for a well-formed table of finite entries, provided the
  validity test gives the same answer on \<open>nz\<close> and on the perturbed histogram: the
  incremental call tests \<open>nz\<close>, the full one tests the perturbed histogram.
\<close>

theorem loglike_nz_incremental:
  assumes wf: "wf_array P" and fin: "finite_array P"
    and len: "length nz = ncols P" and ij: "i < ncols P" "j < ncols P" "i \<noteq> j"
    and agree: "nz_invalid (perturbed nz i j d) = nz_invalid nz"
    and dot: "np_dot P nz = Inr ov"
  shows "loglike_nz nz P (Some ov) ro (Some (i, j)) (Some d)
       = loglike_nz (perturbed nz i j d) P None ro None None"
proof (cases "nz_invalid nz")
  case True
  with agree show ?thesis by (simp add: loglike_nz_both_invalid)
next
  case False
  then obtain a where a: "nz = map Fin a"
    using valid_all_finite all_finite_map_Fin by blast
  from False agree have v': "\<not> nz_invalid (perturbed nz i j d)" by simp
  then have "list_all isfinite (perturbed nz i j d)" by (rule valid_all_finite)
  moreover have "i < length (perturbed nz i j d)"
    using len ij by (simp add: perturbed_def)
  ultimately have "isfinite (perturbed nz i j d ! i)"
    by (simp add: list_all_length)
  moreover have "perturbed nz i j d ! i = fadd (Fin (a ! i)) d"
    using len ij a by (simp add: perturbed_def)
  ultimately obtain r where d: "d = Fin r"
    using fadd_Fin_finite by auto
  from dot len have ov: "ov = map (\<lambda>r. inner r nz) (rows P)"
    by (simp add: np_dot_def)
  show ?thesis
    using loglike_nz_incremental_valid[OF wf fin _ ij, of a r ro] False v' len
    unfolding a d ov by simp
qed

theorem loglike_nz_incremental_witness:
  "wf_array \<lparr>ncols = 2, rows = [[Fin 1, Fin 0], [Fin (1 / 2), Fin (1 / 2)]]\<rparr>
   \<and> finite_array \<lparr>ncols = 2, rows = [[Fin 1, Fin 0], [Fin (1 / 2), Fin (1 / 2)]]\<rparr>
   \<and> perturbed [Fin (1 / 2), Fin (1 / 2)] 0 1 (Fin (1 / 4)) = [Fin (3 / 4), Fin (1 / 4)]
   \<and> np_dot \<lparr>ncols = 2, rows = [[Fin 1, Fin 0], [Fin (1 / 2), Fin (1 / 2)]]\<rparr>
        [Fin (1 / 2), Fin (1 / 2)] = Inr [Fin (1 / 2), Fin (1 / 2)]
   \<and> loglike_nz [Fin (1 / 2), Fin (1 / 2)]
        \<lparr>ncols = 2, rows = [[Fin 1, Fin 0], [Fin (1 / 2), Fin (1 / 2)]]\<rparr>
        (Some [Fin (1 / 2), Fin (1 / 2)]) True (Some (0, 1)) (Some (Fin (1 / 4)))
     = loglike_nz [Fin (3 / 4), Fin (1 / 4)]
        \<lparr>ncols = 2, rows = [[Fin 1, Fin 0], [Fin (1 / 2), Fin (1 / 2)]]\<rparr> None True None None"
  using loglike_nz_incremental [of "\<lparr>ncols = 2, rows = [[Fin 1, Fin 0], [Fin (1 / 2), Fin (1 / 2)]]\<rparr>"
      "[Fin (1 / 2), Fin (1 / 2)]" 0 1 "Fin (1 / 4)" "[Fin (1 / 2), Fin (1 / 2)]" True]
  by (simp add: wf_array_def finite_array_def perturbed_def fsub_def nz_invalid_def
      np_dot_def inner_def)

lemma round53_eval:
  assumes "2 powi e \<le> \<bar>x\<bar>" and "\<bar>x\<bar> < 2 powi (e + 1)"
  shows "round53 x = 2 powi (e - 52) * of_int (rne (x / 2 powi (e - 52)))"
proof -
  have pos: "0 < \<bar>x\<bar>"
    using assms(1) by (smt (verit) zero_less_power_int)
  have p: "2 powr real_of_int k = (2::real) powi k" for k
    by (simp add: powr_real_of_int')
  have "real_of_int e \<le> log 2 \<bar>x\<bar>"
    using assms(1) pos by (simp add: le_log_iff p)
  moreover have "log 2 \<bar>x\<bar> < real_of_int e + 1"
  proof -
    have "log 2 \<bar>x\<bar> < real_of_int (e + 1)"
      using assms(2) pos by (simp only: log_less_iff[of 2, simplified] p)
    then show ?thesis by simp
  qed
  ultimately have "\<lfloor>log 2 \<bar>x\<bar>\<rfloor> = e"
    by (rule floor_unique)
  with pos show ?thesis
    by (simp add: round53_def Let_def)
qed

lemma round53_zero [simp]: "round53 0 = 0"
  by (simp add: round53_def)

lemma round53_half: "round53 (1 / 2) = 1 / 2"
  using round53_eval[of "- 1" "1 / 2"] by (simp add: power_int_minus_divide rne_def)

lemma round53_one: "round53 1 = 1"
  using round53_eval[of 0 1] by (simp add: power_int_minus_divide rne_def)

lemma round53_minus_half: "round53 (- (1 / 2)) = - (1 / 2)"
  using round53_eval[of "- 1" "- (1 / 2)"] by (simp add: power_int_minus_divide rne_def)

lemma round53_tiny: "round53 (1 / 2 ^ 60) = 1 / 2 ^ 60" "round53 (1 / 2 ^ 61) = 1 / 2 ^ 61"
  using round53_eval[of "- 60" "1 / 2 ^ 60"] round53_eval[of "- 61" "1 / 2 ^ 61"]
  by (simp_all add: power_int_minus_divide rne_def)

lemma round53_absorb_add: "round53 (1 / 2 + 1 / 2 ^ 61) = 1 / 2"
  using round53_eval[of "- 1" "1 / 2 + 1 / 2 ^ 61"]
  by (simp add: power_int_minus_divide rne_def)

lemma round53_absorb_sub: "round53 (1 - 1 / 2 ^ 60) = 1"
  using round53_eval[of "- 1" "1 - 1 / 2 ^ 60"]
  by (simp add: power_int_minus_divide rne_def)

lemma fadd64_Fin: "fadd64 (Fin x) (Fin y) = Fin (round53 (x + y))"
  by (simp add: fadd64_def)

lemma fsub64_Fin: "fsub64 (Fin x) (Fin y) = Fin (round53 (x - y))"
  by (simp add: fsub64_def fsub_def)

lemma fmul64_Fin: "fmul64 (Fin x) (Fin y) = Fin (round53 (x * y))"
  by (simp add: fmul64_def)

lemma inner64_tiny_half:
  "inner64 [Fin 1, Fin (1 / 2 ^ 60)] [Fin (1 / 2), Fin (1 / 2)] = Fin (1 / 2)"
proof -
  have a: "fmul64 (Fin 1) (Fin (1 / 2)) = Fin (1 / 2)"
    unfolding fmul64_Fin using round53_half by simp
  have b: "fmul64 (Fin (1 / 2 ^ 60)) (Fin (1 / 2)) = Fin (1 / 2 ^ 61)"
    unfolding fmul64_Fin using round53_tiny(2) by simp
  have c: "fadd64 (Fin 0) (Fin (1 / 2)) = Fin (1 / 2)"
    unfolding fadd64_Fin using round53_half by simp
  have d: "fadd64 (Fin (1 / 2)) (Fin (1 / 2 ^ 61)) = Fin (1 / 2)"
    unfolding fadd64_Fin using round53_absorb_add by simp
  show ?thesis
    unfolding inner64_def by (simp only: zip.simps list.map foldl.simps prod.case a b c d list.case)
qed

lemma inner64_tiny_moved:
  "inner64 [Fin 1, Fin (1 / 2 ^ 60)] [Fin 0, Fin 1] = Fin (1 / 2 ^ 60)"
proof -
  have a: "fmul64 (Fin 1) (Fin 0) = Fin 0"
    unfolding fmul64_Fin by simp
  have b: "fmul64 (Fin (1 / 2 ^ 60)) (Fin 1) = Fin (1 / 2 ^ 60)"
    unfolding fmul64_Fin using round53_tiny(1) by simp
  have c: "fadd64 (Fin 0) (Fin 0) = Fin 0"
    unfolding fadd64_Fin by simp
  have d: "fadd64 (Fin 0) (Fin (1 / 2 ^ 60)) = Fin (1 / 2 ^ 60)"
    unfolding fadd64_Fin using round53_tiny(1) by simp
  show ?thesis
    unfolding inner64_def by (simp only: zip.simps list.map foldl.simps prod.case a b c d list.case)
qed

lemma overlap_incremental64_tiny:
  "overlap_incremental64 tiny_pdfs [Fin (1 / 2), Fin (1 / 2)] (0, 1) (Fin (- (1 / 2))) = [Fin 0]"
proof -
  have a: "fsub64 (Fin 1) (Fin (1 / 2 ^ 60)) = Fin 1"
    unfolding fsub64_Fin using round53_absorb_sub by simp
  have b: "fmul64 (Fin (- (1 / 2))) (Fin 1) = Fin (- (1 / 2))"
    unfolding fmul64_Fin using round53_minus_half by simp
  have c: "fadd64 (Fin (1 / 2)) (Fin (- (1 / 2))) = Fin 0"
    unfolding fadd64_Fin by simp
  show ?thesis
    by (simp add: overlap_incremental64_def tiny_pdfs_def inner64_tiny_half[simplified]
        a[simplified] b[simplified] c[simplified])
qed

lemma overlap_full64_tiny:
  "overlap_full64 tiny_pdfs [Fin (1 / 2), Fin (1 / 2)] (0, 1) (Fin (- (1 / 2)))
     = [Fin (1 / 2 ^ 60)]"
proof -
  have a: "fadd64 (Fin (1 / 2)) (Fin (- (1 / 2))) = Fin 0"
    unfolding fadd64_Fin by simp
  have b: "fsub64 (Fin (1 / 2)) (Fin (- (1 / 2))) = Fin 1"
    unfolding fsub64_Fin using round53_one by simp
  show ?thesis
    by (simp add: overlap_full64_def tiny_pdfs_def a[simplified] b[simplified]
        inner64_tiny_moved[simplified])
qed

lemma lnlike64_tiny:
  "lnlike64 [Fin 0] = NInf" "isfinite (lnlike64 [Fin (1 / 2 ^ 60)])"
  by (simp_all add: lnlike64_def fadd64_def)

text \<open>
  Without that proviso the two differ: a step that drives bin \<open>j\<close> below zero leaves the
  incremental evaluation finite, and the full one returns \<open>-inf\<close> and zero overlaps.
  With the proviso the equality is one of exact arithmetic only, and no tolerance
  replaces it: on the table \<open>tiny_pdfs\<close>, with both histograms valid, binary64 absorbs the
  small entry in the cached overlap and in the column difference, the incremental
  overlap cancels to zero with log-likelihood \<open>-inf\<close>, and the full recomputation gives
  the overlap \<open>1 / 2 ^ 60\<close> with a finite log-likelihood.
\<close>

theorem loglike_nz_incremental_counterexample:
  "np_dot \<lparr>ncols = 2, rows = [[Fin 1, Fin 0]]\<rparr> [Fin (1 / 2), Fin (1 / 2)] = Inr [Fin (1 / 2)]
   \<and> perturbed [Fin (1 / 2), Fin (1 / 2)] 0 1 (Fin 1) = [Fin (3 / 2), Fin (- 1 / 2)]
   \<and> loglike_nz [Fin (1 / 2), Fin (1 / 2)] \<lparr>ncols = 2, rows = [[Fin 1, Fin 0]]\<rparr>
        (Some [Fin (1 / 2)]) True (Some (0, 1)) (Some (Fin 1))
       = Inr (LnLikeOverlap (Fin (ln (3 / 2))) [Fin (3 / 2)])
   \<and> loglike_nz [Fin (3 / 2), Fin (- 1 / 2)] \<lparr>ncols = 2, rows = [[Fin 1, Fin 0]]\<rparr>
        None True None None
       = Inr (LnLikeOverlap NInf [Fin 0])
   \<and> loglike_nz [Fin (1 / 2), Fin (1 / 2)] \<lparr>ncols = 2, rows = [[Fin 1, Fin 0]]\<rparr>
        (Some [Fin (1 / 2)]) True (Some (0, 1)) (Some (Fin 1))
       \<noteq> loglike_nz (perturbed [Fin (1 / 2), Fin (1 / 2)] 0 1 (Fin 1))
           \<lparr>ncols = 2, rows = [[Fin 1, Fin 0]]\<rparr> None True None None
   \<and> \<not> nz_invalid [Fin (1 / 2), Fin (1 / 2)]
   \<and> \<not> nz_invalid (perturbed [Fin (1 / 2), Fin (1 / 2)] 0 1 (Fin (- (1 / 2))))
   \<and> overlap_incremental64 tiny_pdfs [Fin (1 / 2), Fin (1 / 2)] (0, 1) (Fin (- (1 / 2)))
       = [Fin 0]
   \<and> lnlike64 [Fin 0] = NInf
   \<and> overlap_full64 tiny_pdfs [Fin (1 / 2), Fin (1 / 2)] (0, 1) (Fin (- (1 / 2)))
       = [Fin (1 / 2 ^ 60)]
   \<and> isfinite (lnlike64 [Fin (1 / 2 ^ 60)])"
proof -
  have exact: "np_dot \<lparr>ncols = 2, rows = [[Fin 1, Fin 0]]\<rparr> [Fin (1 / 2), Fin (1 / 2)]
       = Inr [Fin (1 / 2)]
   \<and> perturbed [Fin (1 / 2), Fin (1 / 2)] 0 1 (Fin 1) = [Fin (3 / 2), Fin (- 1 / 2)]
   \<and> loglike_nz [Fin (1 / 2), Fin (1 / 2)] \<lparr>ncols = 2, rows = [[Fin 1, Fin 0]]\<rparr>
        (Some [Fin (1 / 2)]) True (Some (0, 1)) (Some (Fin 1))
       = Inr (LnLikeOverlap (Fin (ln (3 / 2))) [Fin (3 / 2)])
   \<and> loglike_nz [Fin (3 / 2), Fin (- 1 / 2)] \<lparr>ncols = 2, rows = [[Fin 1, Fin 0]]\<rparr>
        None True None None
       = Inr (LnLikeOverlap NInf [Fin 0])
   \<and> loglike_nz [Fin (1 / 2), Fin (1 / 2)] \<lparr>ncols = 2, rows = [[Fin 1, Fin 0]]\<rparr>
        (Some [Fin (1 / 2)]) True (Some (0, 1)) (Some (Fin 1))
       \<noteq> loglike_nz (perturbed [Fin (1 / 2), Fin (1 / 2)] 0 1 (Fin 1))
           \<lparr>ncols = 2, rows = [[Fin 1, Fin 0]]\<rparr> None True None None"
    by (simp add: perturbed_def fsub_def nz_invalid_def np_dot_def inner_def loglike_nz_def
        pair_perturb_def column_def add_perturb_def vadd_def vsub_def ll_return_def np_zeros_def)
  have valid: "\<not> nz_invalid [Fin (1 / 2), Fin (1 / 2)]"
    "\<not> nz_invalid (perturbed [Fin (1 / 2), Fin (1 / 2)] 0 1 (Fin (- (1 / 2))))"
    by (simp_all add: nz_invalid_def perturbed_def fsub_def)
  from exact valid overlap_incremental64_tiny overlap_full64_tiny lnlike64_tiny
  show ?thesis by blast
qed

lemma np_sum_NaN: "NaN \<in> set xs \<Longrightarrow> np_sum xs = NaN"
proof (induction xs)
  case Nil
  then show ?case by simp
next
  case (Cons x xs)
  have r: "fadd y NaN = NaN" for y by (cases y) simp_all
  from Cons show ?case by (auto simp: r)
qed

lemma np_sum_NInf: "NInf \<in> set xs \<Longrightarrow> np_sum xs = NInf \<or> np_sum xs = NaN"
proof (induction xs)
  case Nil
  then show ?case by simp
next
  case (Cons x xs)
  show ?case
  proof (cases "x = NInf")
    case True
    then show ?thesis by (cases "np_sum xs") simp_all
  next
    case False
    with Cons have "np_sum xs = NInf \<or> np_sum xs = NaN" by simp
    then show ?thesis by (cases x) auto
  qed
qed

text \<open>
  Claim C10. For a histogram whose entries are all finite and not negative the invalid
  branch is not taken, whatever the pair and the step: the function returns the sum of
  the logarithms of the perturbed overlaps, and these overlaps themselves. The perturbed
  histogram is not examined; a negative perturbed overlap makes the sum \<open>nan\<close> and a
  zero one makes it \<open>-inf\<close> or \<open>nan\<close>.
\<close>

theorem loglike_nz_validity_scope:
  assumes valid: "\<forall>x\<in>set nz. isfinite x \<and> \<not> flt x (Fin 0)"
    and ov: "(case overlap of None \<Rightarrow> np_dot P nz | Some v \<Rightarrow> Inr v) = Inr ov"
    and pb: "pair_perturb P pair pair_step = Inr pb"
    and s: "add_perturb ov pb = Inr s"
  shows "loglike_nz nz P overlap True pair pair_step
           = Inr (LnLikeOverlap (np_sum (map flog s)) s)
       \<and> loglike_nz nz P overlap False pair pair_step = Inr (LnLike (np_sum (map flog s)))
       \<and> ((\<exists>y<0. Fin y \<in> set s) \<longrightarrow> np_sum (map flog s) = NaN)
       \<and> (Fin 0 \<in> set s \<longrightarrow> np_sum (map flog s) = NInf \<or> np_sum (map flog s) = NaN)"
proof -
  from valid have v: "\<not> nz_invalid nz"
    by (auto simp: nz_invalid_def list_ex_iff)
  have neg: "np_sum (map flog s) = NaN" if "Fin y \<in> set s" "y < 0" for y
  proof -
    from that have "flog (Fin y) \<in> set (map flog s)" by force
    with that show ?thesis by (simp add: np_sum_NaN)
  qed
  have zero: "np_sum (map flog s) = NInf \<or> np_sum (map flog s) = NaN" if "Fin 0 \<in> set s"
  proof -
    from that have "flog (Fin 0) \<in> set (map flog s)" by force
    then show ?thesis by (simp add: np_sum_NInf)
  qed
  from v ov pb s neg zero show ?thesis
    by (auto simp: loglike_nz_def ll_return_def)
qed

theorem loglike_nz_validity_scope_witness:
  "pair_perturb \<lparr>ncols = 2, rows = [[Fin 1, Fin 0], [Fin 0, Fin 1]]\<rparr> (Some (0, 1)) (Some (Fin 1))
     = Inr (PArray [Fin 1, Fin (- 1)])
   \<and> add_perturb [Fin (1 / 2), Fin (1 / 2)] (PArray [Fin 1, Fin (- 1)])
     = Inr [Fin (3 / 2), Fin (- 1 / 2)]
   \<and> nz_invalid (perturbed [Fin (1 / 2), Fin (1 / 2)] 0 1 (Fin 1))
   \<and> loglike_nz [Fin (1 / 2), Fin (1 / 2)] \<lparr>ncols = 2, rows = [[Fin 1, Fin 0], [Fin 0, Fin 1]]\<rparr>
        (Some [Fin (1 / 2), Fin (1 / 2)]) True (Some (0, 1)) (Some (Fin 1))
     = Inr (LnLikeOverlap NaN [Fin (3 / 2), Fin (- 1 / 2)])"
proof -
  let ?P = "\<lparr>ncols = 2, rows = [[Fin 1, Fin 0], [Fin 0, Fin 1]]\<rparr>"
  have pb: "pair_perturb ?P (Some (0, 1)) (Some (Fin 1)) = Inr (PArray [Fin 1, Fin (- 1)])"
    by (simp add: pair_perturb_def column_def vsub_def fsub_def)
  have s: "add_perturb [Fin (1 / 2), Fin (1 / 2)] (PArray [Fin 1, Fin (- 1)])
     = Inr [Fin (3 / 2), Fin (- 1 / 2)]"
    by (simp add: add_perturb_def vadd_def)
  have v: "\<forall>x\<in>set [Fin (1 / 2), Fin (1 / 2)]. isfinite x \<and> \<not> flt x (Fin 0)"
    by simp
  have i: "nz_invalid (perturbed [Fin (1 / 2), Fin (1 / 2)] 0 1 (Fin 1))"
    by (simp add: nz_invalid_def perturbed_def fsub_def)
  have n: "\<exists>y<0. Fin y \<in> set [Fin (3 / 2), Fin (- 1 / 2)]"
    by (rule exI[of _ "- 1 / 2"]) simp
  have o: "(case Some [Fin (1 / 2), Fin (1 / 2)] of None \<Rightarrow> np_dot ?P [Fin (1 / 2), Fin (1 / 2)]
             | Some v \<Rightarrow> Inr v) = (Inr [Fin (1 / 2), Fin (1 / 2)] :: py_error + vec)"
    by simp
  from loglike_nz_validity_scope [OF v o pb s] n pb s i show ?thesis
    by simp
qed

section \<open>Properties of a Gibbs step\<close>

lemma mh_accept_minus_inf:
  assumes "l = NInf \<or> l = NaN"
  shows "\<not> mh_accept e (fadd l p) q"
proof -
  from assms have "fadd l p = NInf \<or> fadd l p = NaN"
    by (cases p) auto
  then have "fsub (fadd l p) q = NInf \<or> fsub (fadd l p) q = NaN"
    unfolding fsub_def by (cases q) auto
  then show ?thesis
    unfolding mh_accept_def by auto
qed

lemma loglike_nz_invalid_overlap:
  "nz_invalid nz \<Longrightarrow> loglike_nz nz P ov True pair step
     = Inr (LnLikeOverlap NInf (np_zeros (length (rows P))))"
  by (simp add: loglike_nz_def ll_return_def)

lemma mh_step_invalid_rejected:
  assumes "nz_invalid (vadd (c_pos c) (vscale t (fmul (Fin (fst (rs_randn G s))) gscale)))"
  shows "mh_step G P logprior pair t gscale (c, s)
       = Inr (c, snd (rs_exponential G (snd (rs_randn G s))))"
proof -
  obtain n s1 where r: "rs_randn G s = (n, s1)" by (cases "rs_randn G s")
  obtain e s2 where x: "rs_exponential G s1 = (e, s2)" by (cases "rs_exponential G s1")
  from assms r have "nz_invalid (vadd (c_pos c) (vscale t (fmul (Fin n) gscale)))" by simp
  then show ?thesis
    by (simp add: mh_step_def r x loglike_nz_invalid_overlap mh_accept_minus_inf)
qed






text \<open>
  Claim C5. From a state of finite log-posterior, a candidate with a negative component
  is rejected whatever the exponential draw: its log-likelihood is \<open>-inf\<close>, so is its
  log-posterior when the prior returns a finite value or \<open>-inf\<close> there, the acceptance
  test fails for every draw, and the step returns the position, the log-posterior and the
  overlaps it was given.
\<close>

theorem mh_step_rejects_negative:
  assumes fin: "isfinite (c_lnpost c)"
    and new: "pos_new = vadd (c_pos c) (vscale t (fmul (Fin (fst (rs_randn G s))) gscale))"
    and neg: "x \<in> set pos_new" "flt x (Fin 0)"
    and prior: "logprior pos_new \<noteq> PInf" "logprior pos_new \<noteq> NaN"
  shows "loglike_nz pos_new P (Some (c_overlap c)) True (Some pair)
             (Some (fmul (Fin (fst (rs_randn G s))) gscale))
           = Inr (LnLikeOverlap NInf (replicate (length (rows P)) (Fin 0)))
       \<and> fadd NInf (logprior pos_new) = NInf
       \<and> (\<forall>e. \<not> mh_accept e (fadd NInf (logprior pos_new)) (c_lnpost c))
       \<and> mh_step G P logprior pair t gscale (c, s)
           = Inr (c, snd (rs_exponential G (snd (rs_randn G s))))"
proof -
  from neg have inv: "nz_invalid pos_new"
    unfolding nz_invalid_def list_ex_iff by blast
  then have "loglike_nz pos_new P (Some (c_overlap c)) True (Some pair)
             (Some (fmul (Fin (fst (rs_randn G s))) gscale))
           = Inr (LnLikeOverlap NInf (replicate (length (rows P)) (Fin 0)))"
    by (simp add: loglike_nz_invalid_overlap np_zeros_def)
  moreover from prior have "fadd NInf (logprior pos_new) = NInf"
    by (cases "logprior pos_new") simp_all
  moreover have "\<forall>e. \<not> mh_accept e (fadd NInf (logprior pos_new)) (c_lnpost c)"
    by (simp add: mh_accept_minus_inf)
  moreover from inv have "mh_step G P logprior pair t gscale (c, s)
           = Inr (c, snd (rs_exponential G (snd (rs_randn G s))))"
    unfolding new by (simp add: mh_step_invalid_rejected)
  ultimately show ?thesis by blast
qed

theorem mh_step_rejects_negative_witness:
  "isfinite (c_lnpost \<lparr>c_pos = [Fin (1 / 2), Fin (1 / 2)], c_lnpost = Fin (ln (1 / 2)),
                       c_overlap = [Fin (1 / 2)]\<rparr>)
   \<and> vadd [Fin (1 / 2), Fin (1 / 2)]
        (vscale [Fin 1, Fin (- 1)] (fmul (Fin (fst (rs_randn demo_rstate 0))) (Fin 1)))
       = [Fin (3 / 2), Fin (- 1 / 2)]
   \<and> flt (Fin (- 1 / 2)) (Fin 0)
   \<and> mh_step demo_rstate demo_pdfs (\<lambda>p. Fin 0) (0, 1) [Fin 1, Fin (- 1)] (Fin 1)
        (\<lparr>c_pos = [Fin (1 / 2), Fin (1 / 2)], c_lnpost = Fin (ln (1 / 2)),
          c_overlap = [Fin (1 / 2)]\<rparr>, 0)
     = Inr (\<lparr>c_pos = [Fin (1 / 2), Fin (1 / 2)], c_lnpost = Fin (ln (1 / 2)),
              c_overlap = [Fin (1 / 2)]\<rparr>, 2)"
  using mh_step_rejects_negative [of
      "\<lparr>c_pos = [Fin (1 / 2), Fin (1 / 2)], c_lnpost = Fin (ln (1 / 2)),
        c_overlap = [Fin (1 / 2)]\<rparr>"
      "[Fin (3 / 2), Fin (- 1 / 2)]" "[Fin 1, Fin (- 1)]" demo_rstate 0 "Fin 1" "Fin (- 1 / 2)"
      "\<lambda>p. Fin 0" demo_pdfs "(0, 1)"]
  by (simp add: demo_rstate_def vadd_def vscale_def)

section \<open>Invariants of the sampling loops\<close>

lemma mh_loop_invariant:
  assumes step: "\<And>c s c' s'. I c \<Longrightarrow> mh_step G P lp pair t gs (c, s) = Inr (c', s') \<Longrightarrow> I c'"
    and "I c" and "mh_loop G P lp pair t gs k (c, s) = Inr (c', s')"
  shows "I c'"
  using assms(2,3)
proof (induction k arbitrary: c s)
  case 0
  then show ?case by simp
next
  case (Suc k)
  from Suc.prems(2) obtain c1 s1 where
    one: "mh_step G P lp pair t gs (c, s) = Inr (c1, s1)"
    and rest: "mh_loop G P lp pair t gs k (c1, s1) = Inr (c', s')"
    by (auto split: sum.splits)
  from step[OF Suc.prems(1) one] have "I c1" .
  then show ?case using rest by (rule Suc.IH)
qed

lemma gibbs_loop_invariant:
  assumes step: "\<forall>pair c s c' s'. fst pair \<noteq> snd pair \<longrightarrow> I c
      \<longrightarrow> gibbs_step G P lp m pair (c, s) = Inr (c', s') \<longrightarrow> I c'"
    and "\<forall>p\<in>set pairs. fst p \<noteq> snd p"
    and "I c" and "gibbs_loop G P lp m pairs (c, s) = Inr (c', s')"
  shows "I c'"
  using assms(2,3,4)
proof (induction pairs arbitrary: c s)
  case Nil
  then show ?case by simp
next
  case (Cons pair pairs)
  from Cons.prems(3) obtain c1 s1 where
    one: "gibbs_step G P lp m pair (c, s) = Inr (c1, s1)"
    and rest: "gibbs_loop G P lp m pairs (c1, s1) = Inr (c', s')"
    by (auto split: sum.splits)
  from Cons.prems(1) have "fst pair \<noteq> snd pair" by simp
  with step Cons.prems(2) one have "I c1" by blast
  moreover from Cons.prems(1) have "\<forall>p\<in>set pairs. fst p \<noteq> snd p" by simp
  ultimately show ?case using rest Cons.IH by blast
qed

lemma draw_pairs_distinct:
  assumes "distinct_pairs G" and "draw_pairs G n k s = Inr (ps, s')"
  shows "\<forall>p\<in>set ps. fst p \<noteq> snd p"
  using assms(2)
proof (induction k arbitrary: s ps)
  case 0
  then show ?case by simp
next
  case (Suc k)
  from Suc.prems obtain p s1 ps1 where
    c: "choice_pair G n s = Inr (p, s1)" and d: "draw_pairs G n k s1 = Inr (ps1, s')"
    and ps: "ps = p # ps1"
    by (auto split: sum.splits)
  from c have "2 \<le> n" "p = fst (rs_choice G n s)"
    by (auto simp: choice_pair_def split: if_splits)
  with assms(1) have "fst p \<noteq> snd p" by (simp add: distinct_pairs_def)
  with Suc.IH[OF d] ps show ?case by simp
qed

lemma sample_iteration_invariant:
  assumes dp: "distinct_pairs G"
    and step: "\<forall>pair c s c' s'. fst pair \<noteq> snd pair \<longrightarrow> I c
      \<longrightarrow> gibbs_step G P lp m pair (c, s) = Inr (c', s') \<longrightarrow> I c'"
    and "I c" and it: "sample_iteration G P lp thin m (c, s) = Inr (c', s')"
  shows "I c'"
proof -
  from it obtain ps s1 where d: "draw_pairs G (ncols P) thin s = Inr (ps, s1)"
    and g: "gibbs_loop G P lp m ps (c, s1) = Inr (c', s')"
    by (auto simp: sample_iteration_def split: sum.splits)
  from draw_pairs_distinct[OF dp d] have "\<forall>p\<in>set ps. fst p \<noteq> snd p" .
  with step show ?thesis
    using \<open>I c\<close> g by (rule gibbs_loop_invariant)
qed

lemma sample_loop_invariant:
  assumes dp: "distinct_pairs G"
    and step: "\<forall>pair c s c' s'. fst pair \<noteq> snd pair \<longrightarrow> I c
      \<longrightarrow> gibbs_step G P lp m pair (c, s) = Inr (c', s') \<longrightarrow> I c'"
    and "I c"
  shows "\<forall>y\<in>set (fst (sample_loop G P lp thin m n (c, s))).
           \<exists>c'. I c' \<and> y = (c_pos c', c_lnpost c')"
  using assms(3)
proof (induction n arbitrary: c s)
  case 0
  then show ?case by simp
next
  case (Suc n)
  show ?case
  proof (cases "sample_iteration G P lp thin m (c, s)")
    case (Inl e)
    then show ?thesis by simp
  next
    case (Inr cs1)
    obtain c1 s1 where cs1: "cs1 = (c1, s1)" by (cases cs1)
    have "I c1"
      using dp step Suc.prems Inr[unfolded cs1]
      by (rule sample_iteration_invariant)
    from Suc.IH[OF this, of s1] Inr cs1 \<open>I c1\<close> show ?thesis
      by (auto split: prod.splits)
  qed
qed

lemma sample_loop_length:
  "sample_loop G P lp thin m n cs = (ys, Inr s') \<Longrightarrow> length ys = n"
proof (induction n arbitrary: cs ys)
  case 0
  then show ?case by simp
next
  case (Suc n)
  then show ?case
    by (auto split: sum.splits prod.splits)
qed

lemma np_sum_finite: "np_sum p = Fin r \<Longrightarrow> list_all isfinite p"
proof (induction p arbitrary: r)
  case Nil
  then show ?case by simp
next
  case (Cons x p)
  from Cons.prems have "fadd x (np_sum p) = Fin r" by simp
  then obtain a b where "x = Fin a" "np_sum p = Fin b"
    by (cases x; cases "np_sum p") simp_all
  with Cons.IH show ?case by simp
qed

lemma basis_vector_Inr:
  assumes "basis_vector p (i, j) = Inr t"
  shows "i < length p \<and> j < length p
       \<and> t = map Fin ((replicate (length p) 0)[i := 1, j := - 1])"
  using assms
  by (auto simp: basis_vector_def np_zeros_def map_update split: if_splits)

lemma basis_vector_length:
  "length p' = length p \<Longrightarrow> basis_vector p' pair = basis_vector p pair"
  by (cases pair) (auto simp: basis_vector_def)

lemma real_pair_move:
  fixes a :: "real list"
  assumes "i < length a" "j < length a" "i \<noteq> j"
  shows "map2 (+) a (map (\<lambda>x. x * z) ((replicate (length a) 0)[i := 1, j := - 1]))
       = a[i := a ! i + z, j := a ! j - z]"
proof (rule nth_equalityI)
  show "length (map2 (+) a (map (\<lambda>x. x * z) ((replicate (length a) 0)[i := 1, j := - 1])))
      = length (a[i := a ! i + z, j := a ! j - z])"
    by simp
next
  fix k
  assume "k < length (map2 (+) a (map (\<lambda>x. x * z) ((replicate (length a) 0)[i := 1, j := - 1])))"
  then have k: "k < length a" by simp
  then show "map2 (+) a (map (\<lambda>x. x * z) ((replicate (length a) 0)[i := 1, j := - 1])) ! k
      = a[i := a ! i + z, j := a ! j - z] ! k"
    using assms by (simp add: nth_list_update)
qed

lemma vadd_Fin: "vadd (map Fin a) (map Fin b) = map Fin (map2 (+) a b)"
  unfolding vadd_def
proof (induction a arbitrary: b)
  case Nil
  then show ?case by simp
next
  case (Cons x a)
  then show ?case by (cases b) simp_all
qed

lemma vscale_Fin: "vscale (map Fin a) (Fin z) = map Fin (map (\<lambda>x. x * z) a)"
  by (simp add: vscale_def)

lemma perturbed_Fin:
  "perturbed (map Fin a) i j (Fin z) = map Fin (a[i := a ! i + z, j := a ! j - z])"
  if "i < length a" "j < length a"
  using that by (simp add: perturbed_def fsub_def map_update)

lemma candidate_finite_step:
  assumes t: "basis_vector (map Fin a) (i, j) = Inr t" and ij: "i \<noteq> j"
    and v: "list_all isfinite (vadd (map Fin a) (vscale t z))"
  shows "\<exists>d. z = Fin d"
proof -
  from basis_vector_Inr[OF t] have r: "i < length a" "j < length a"
    and tt: "t = map Fin ((replicate (length a) 0)[i := 1, j := - 1])"
    by simp_all
  have "vadd (map Fin a) (vscale t z) ! i = fadd (Fin (a ! i)) (fmul (Fin 1) z)"
    using r ij unfolding tt vadd_def vscale_def by simp
  moreover have "i < length (vadd (map Fin a) (vscale t z))"
    using r unfolding tt vadd_def vscale_def by simp
  ultimately have "isfinite (fadd (Fin (a ! i)) (fmul (Fin 1) z))"
    using v by (metis list_all_length)
  then show ?thesis
    by (cases z) (simp_all add: inf_times_def)
qed

lemma pair_move:
  assumes t: "basis_vector (map Fin a) (i, j) = Inr t" and ij: "i \<noteq> j"
  shows "vadd (map Fin a) (vscale t (Fin d)) = perturbed (map Fin a) i j (Fin d)"
    and "np_sum (vadd (map Fin a) (vscale t (Fin d))) = np_sum (map Fin a)"
proof -
  from basis_vector_Inr[OF t] have r: "i < length a" "j < length a"
    and tt: "t = map Fin ((replicate (length a) 0)[i := 1, j := - 1])"
    by simp_all
  show m: "vadd (map Fin a) (vscale t (Fin d)) = perturbed (map Fin a) i j (Fin d)"
    unfolding tt vscale_Fin vadd_Fin using r ij
    by (simp add: real_pair_move perturbed_Fin)
  show "np_sum (vadd (map Fin a) (vscale t (Fin d))) = np_sum (map Fin a)"
    unfolding m using r ij
    by (simp add: perturbed_Fin np_sum_Fin sum_list_real_update)
qed

lemma mh_step_Inr:
  assumes "mh_step G P lp pair t gs (c, s) = Inr (c', s')"
  shows "c' = c
       \<or> (\<exists>l ov. \<not> nz_invalid (vadd (c_pos c) (vscale t (fmul (Fin (fst (rs_randn G s))) gs)))
            \<and> loglike_nz (vadd (c_pos c) (vscale t (fmul (Fin (fst (rs_randn G s))) gs))) P
                 (Some (c_overlap c)) True (Some pair)
                 (Some (fmul (Fin (fst (rs_randn G s))) gs)) = Inr (LnLikeOverlap l ov)
            \<and> c' = \<lparr>c_pos = vadd (c_pos c) (vscale t (fmul (Fin (fst (rs_randn G s))) gs)),
                     c_lnpost = fadd l (lp (vadd (c_pos c)
                                   (vscale t (fmul (Fin (fst (rs_randn G s))) gs)))),
                     c_overlap = ov\<rparr>)"
proof (cases "nz_invalid (vadd (c_pos c) (vscale t (fmul (Fin (fst (rs_randn G s))) gs)))")
  case True
  from mh_step_invalid_rejected[OF True] assms show ?thesis by simp
next
  case False
  obtain n s1 where r: "rs_randn G s = (n, s1)" by (cases "rs_randn G s")
  obtain e s2 where x: "rs_exponential G s1 = (e, s2)" by (cases "rs_exponential G s1")
  let ?new = "vadd (c_pos c) (vscale t (fmul (Fin n) gs))"
  show ?thesis
  proof (cases "loglike_nz ?new P (Some (c_overlap c)) True (Some pair)
                  (Some (fmul (Fin n) gs))")
    case (Inl e)
    with assms show ?thesis by (simp add: mh_step_def r)
  next
    case (Inr res)
    show ?thesis
    proof (cases res)
      case (LnLike l)
      with Inr assms show ?thesis by (simp add: mh_step_def r)
    next
      case (LnLikeOverlap l ov)
      show ?thesis
      proof (cases "mh_accept e (fadd l (lp ?new)) (c_lnpost c)")
        case True
        have "mh_step G P lp pair t gs (c, s)
            = Inr (\<lparr>c_pos = ?new, c_lnpost = fadd l (lp ?new), c_overlap = ov\<rparr>, s2)"
          using True Inr LnLikeOverlap by (simp add: mh_step_def r x Let_def)
        with assms have "c' = \<lparr>c_pos = ?new, c_lnpost = fadd l (lp ?new), c_overlap = ov\<rparr>"
          by simp
        with False Inr LnLikeOverlap show ?thesis by (simp add: r)
      next
        case False
        have "mh_step G P lp pair t gs (c, s) = Inr (c, s2)"
          using False Inr LnLikeOverlap by (simp add: mh_step_def r x)
        with assms show ?thesis by simp
      qed
    qed
  qed
qed

lemma mh_step_simplex:
  assumes sum: "np_sum (c_pos c) = Fin r" and t: "basis_vector (c_pos c) (i, j) = Inr t"
    and ij: "i \<noteq> j" and step: "mh_step G P lp pair t gs (c, s) = Inr (c', s')"
  shows "np_sum (c_pos c') = Fin r \<and> basis_vector (c_pos c') (i, j) = Inr t"
proof -
  let ?z = "fmul (Fin (fst (rs_randn G s))) gs"
  from np_sum_finite[OF sum] obtain a where a: "c_pos c = map Fin a"
    using all_finite_map_Fin by blast
  from mh_step_Inr[OF step] show ?thesis
  proof
    assume "c' = c"
    with sum t show ?thesis by simp
  next
    assume "\<exists>l ov. \<not> nz_invalid (vadd (c_pos c) (vscale t ?z))
            \<and> loglike_nz (vadd (c_pos c) (vscale t ?z)) P
                 (Some (c_overlap c)) True (Some pair) (Some ?z) = Inr (LnLikeOverlap l ov)
            \<and> c' = \<lparr>c_pos = vadd (c_pos c) (vscale t ?z),
                     c_lnpost = fadd l (lp (vadd (c_pos c) (vscale t ?z))),
                     c_overlap = ov\<rparr>"
    then have v: "\<not> nz_invalid (vadd (c_pos c) (vscale t ?z))"
      and c': "c_pos c' = vadd (c_pos c) (vscale t ?z)"
      by auto
    from v have "list_all isfinite (vadd (map Fin a) (vscale t ?z))"
      unfolding a by (rule valid_all_finite)
    with t ij obtain d where d: "?z = Fin d"
      unfolding a using candidate_finite_step by blast
    from pair_move[OF t[unfolded a] ij, of d]
    have "c_pos c' = perturbed (c_pos c) i j (Fin d)" "np_sum (c_pos c') = np_sum (c_pos c)"
      unfolding c' d a by simp_all
    moreover from this(1) have "length (c_pos c') = length (c_pos c)"
      by (simp add: perturbed_def)
    ultimately show ?thesis
      using sum t basis_vector_length[of "c_pos c'" "c_pos c" "(i, j)"] by simp
  qed
qed

lemma gibbs_step_simplex:
  assumes sum: "np_sum (c_pos c) = Fin r" and ij: "fst pair \<noteq> snd pair"
    and step: "gibbs_step G P lp m pair (c, s) = Inr (c', s')"
  shows "np_sum (c_pos c') = Fin r"
proof -
  obtain i j where p: "pair = (i, j)" by (cases pair)
  with ij have ij': "i \<noteq> j" by simp
  from step obtain t gs where t: "basis_vector (c_pos c) (i, j) = Inr t"
    and loop: "mh_loop G P lp pair t gs m (c, s) = Inr (c', s')"
    unfolding gibbs_step_def p by (auto split: sum.splits simp: Let_def)
  let ?I = "\<lambda>c. np_sum (c_pos c) = Fin r \<and> basis_vector (c_pos c) (i, j) = Inr t"
  have "?I c'"
  proof (rule mh_loop_invariant[where I = ?I, OF _ _ loop])
    show "?I c" using sum t by simp
  next
    fix c s c' s'
    assume a: "?I c" and b: "mh_step G P lp pair t gs (c, s) = Inr (c', s')"
    from a have a1: "np_sum (c_pos c) = Fin r" and a2: "basis_vector (c_pos c) (i, j) = Inr t"
      by simp_all
    from mh_step_simplex[OF a1 a2 ij' b] show "?I c'" .
  qed
  then show ?thesis by simp
qed

lemma demo_run_eval:
  "demo_run =
     (\<lparr>pdfs = demo_pdfs,
        samples = [[Fin (9999 / 20000), Fin (10001 / 20000)],
                   [Fin (99980001 / 200000000), Fin (100019999 / 200000000)]],
        samples_lnp = [Fin (ln (1 / 2)), Fin (ln (1 / 2))]\<rparr>, Inr 6)"
  by (simp add: demo_run_def demo_rstate_def demo_pdfs_def gibbs_step_def basis_vector_def
      pair_scale_def num_gradient_def proposal_scale_def mh_step_def mh_accept_def
      loglike_nz_def nz_invalid_def pair_perturb_def column_def add_perturb_def ll_return_def
      np_zeros_def vadd_def vsub_def vscale_def vdiv_def np_min2_def py_min_def fsub_def
      run_mcmc_def sample_def sample_init_def sample_start_def stacked_def sum_axis0_def
      sum_all_def resolve_prior_def sample_iteration_def choice_pair_def init_sampler_def
      np_dot_def inner_def upt_conv_Cons)

lemma demo_rstate_distinct: "distinct_pairs demo_rstate"
  by (simp add: distinct_pairs_def demo_rstate_def)

lemma demo_start: "sample_start demo_pdfs None = [Fin (1 / 2), Fin (1 / 2)]"
  by (simp add: demo_pdfs_def sample_start_def stacked_def sum_axis0_def sum_all_def vdiv_def
      upt_conv_Cons)

lemma sample_init_pos:
  "sample_init P lp pos_init = Inr c \<Longrightarrow> c_pos c = sample_start P pos_init"
  by (auto simp: sample_init_def Let_def split: sum.splits ll_result.splits)

lemma run_mcmc_sample:
  "run_mcmc S G Niter logprior_nz pos_init thin mh_steps s =
     (case sample S G Niter logprior_nz pos_init thin mh_steps s of
        (ys, r) \<Rightarrow> (S\<lparr>samples := samples S @ map fst ys,
                        samples_lnp := samples_lnp S @ map snd ys\<rparr>, r))"
  by (cases logprior_nz) (simp_all add: run_mcmc_def sample_def resolve_prior_def Let_def)

lemma sample_yields_invariant:
  assumes dp: "distinct_pairs G"
    and step: "\<forall>pair c s c' s'. fst pair \<noteq> snd pair \<longrightarrow> I c
      \<longrightarrow> gibbs_step G (pdfs S) (resolve_prior logprior_nz) m pair (c, s) = Inr (c', s')
      \<longrightarrow> I c'"
    and init: "\<forall>c. sample_init (pdfs S) (resolve_prior logprior_nz) pos_init = Inr c \<longrightarrow> I c"
  shows "\<forall>y\<in>set (fst (sample S G Niter logprior_nz pos_init thin m s)).
           \<exists>c'. I c' \<and> y = (c_pos c', c_lnpost c')"
proof (cases "sample_init (pdfs S) (resolve_prior logprior_nz) pos_init")
  case (Inl e)
  then show ?thesis by (simp add: sample_def)
next
  case (Inr c)
  with init have "I c" by simp
  with dp step have "\<forall>y\<in>set (fst (sample_loop G (pdfs S) (resolve_prior logprior_nz) thin m
                                    Niter (c, s))).
           \<exists>c'. I c' \<and> y = (c_pos c', c_lnpost c')"
    by (rule sample_loop_invariant)
  with Inr show ?thesis by (simp add: sample_def)
qed

text \<open>
  Claim C2. A pair move with a finite offset leaves the sum of the components unchanged
  (an offset that is not finite gives an invalid candidate, which no step accepts);
  hence, when the starting position sums to one and the random source draws pairs of
  distinct indices, every position yielded by the generator, and so every sample that
  \<^verbatim>\<open>run_mcmc\<close> appends to the trace, sums to exactly one.
\<close>

theorem simplex_sum_invariant:
  assumes dp: "distinct_pairs G"
    and start: "np_sum (sample_start (pdfs S) pos_init) = Fin 1"
  shows "(\<forall>p i j t z. np_sum p = Fin 1 \<and> basis_vector p (i, j) = Inr t \<and> i \<noteq> j
            \<longrightarrow> (if isfinite z then np_sum (vadd p (vscale t z)) = np_sum p
                 else nz_invalid (vadd p (vscale t z))))
       \<and> (\<forall>y\<in>set (fst (sample S G Niter logprior_nz pos_init thin mh_steps s)).
            np_sum (fst y) = Fin 1)
       \<and> (\<forall>x\<in>set (drop (length (samples S))
                      (samples (fst (run_mcmc S G Niter logprior_nz pos_init thin mh_steps s)))).
            np_sum x = Fin 1)"
proof -
  have move: "if isfinite z then np_sum (vadd p (vscale t z)) = np_sum p
              else nz_invalid (vadd p (vscale t z))"
    if "np_sum p = Fin 1" "basis_vector p (i, j) = Inr t" "i \<noteq> j" for p i j t z
  proof -
    from np_sum_finite[OF that(1)] obtain a where a: "p = map Fin a"
      using all_finite_map_Fin by blast
    show ?thesis
    proof (cases "isfinite z")
      case True
      then obtain d where "z = Fin d" by (auto simp: isfinite_iff)
      with pair_move(2)[OF that(2)[unfolded a] that(3), of d] True show ?thesis
        unfolding a by simp
    next
      case False
      have "nz_invalid (vadd p (vscale t z))"
      proof (rule ccontr)
        assume "\<not> nz_invalid (vadd p (vscale t z))"
        then have "list_all isfinite (vadd (map Fin a) (vscale t z))"
          unfolding a by (rule valid_all_finite)
        from candidate_finite_step[OF that(2)[unfolded a] that(3) this] False
        show False by auto
      qed
      with False show ?thesis by simp
    qed
  qed
  let ?I = "\<lambda>c::chain. np_sum (c_pos c) = Fin 1"
  have st: "\<forall>pair c s c' s'. fst pair \<noteq> snd pair \<longrightarrow> ?I c
      \<longrightarrow> gibbs_step G (pdfs S) (resolve_prior logprior_nz) mh_steps pair (c, s) = Inr (c', s')
      \<longrightarrow> ?I c'"
  proof (intro allI impI)
    fix pair c s c' s'
    assume "fst pair \<noteq> snd pair" "?I c"
      "gibbs_step G (pdfs S) (resolve_prior logprior_nz) mh_steps pair (c, s) = Inr (c', s')"
    from gibbs_step_simplex[OF this(2,1,3)] show "?I c'" .
  qed
  have ini: "\<forall>c. sample_init (pdfs S) (resolve_prior logprior_nz) pos_init = Inr c
      \<longrightarrow> ?I c"
    using start by (simp add: sample_init_pos)
  have "\<forall>y\<in>set (fst (sample S G Niter logprior_nz pos_init thin mh_steps s)).
           \<exists>c'. ?I c' \<and> y = (c_pos c', c_lnpost c')"
    by (rule sample_yields_invariant[where I = ?I, OF dp st ini])
  then have ys: "\<forall>y\<in>set (fst (sample S G Niter logprior_nz pos_init thin mh_steps s)).
            np_sum (fst y) = Fin 1"
    by fastforce
  then have "\<forall>x\<in>set (drop (length (samples S))
                      (samples (fst (run_mcmc S G Niter logprior_nz pos_init thin mh_steps s)))).
            np_sum x = Fin 1"
    by (auto simp: run_mcmc_sample split: prod.splits)
  with move ys show ?thesis by blast
qed

theorem simplex_sum_invariant_witness:
  "distinct_pairs demo_rstate
   \<and> np_sum (sample_start (pdfs (init_sampler demo_pdfs)) None) = Fin 1
   \<and> samples (fst demo_run) = [[Fin (9999 / 20000), Fin (10001 / 20000)],
                   [Fin (99980001 / 200000000), Fin (100019999 / 200000000)]]
   \<and> np_sum [Fin (9999 / 20000), Fin (10001 / 20000)] = Fin 1
   \<and> np_sum [Fin (99980001 / 200000000), Fin (100019999 / 200000000)] = Fin 1"
proof -
  have s: "np_sum (sample_start (pdfs (init_sampler demo_pdfs)) None) = Fin 1"
    by (simp add: init_sampler_def demo_start)
  from simplex_sum_invariant [OF demo_rstate_distinct s, of "Suc (Suc 0)" None "Suc 0" "Suc 0" 0]
  have "\<forall>x\<in>set (drop (length (samples (init_sampler demo_pdfs))) (samples (fst demo_run))).
          np_sum x = Fin 1"
    unfolding demo_run_def by blast
  then show ?thesis
    using s demo_rstate_distinct by (simp add: demo_run_eval init_sampler_def)
qed

section \<open>Properties of a run\<close>

lemma sample_length:
  assumes "sample S G Niter logprior_nz pos_init thin mh_steps s = (ys, Inr s')"
  shows "length ys = Niter"
proof (cases "sample_init (pdfs S) (resolve_prior logprior_nz) pos_init")
  case (Inl e)
  with assms show ?thesis by (simp add: sample_def)
next
  case (Inr c)
  with assms have "sample_loop G (pdfs S) (resolve_prior logprior_nz) thin mh_steps Niter (c, s)
      = (ys, Inr s')"
    by (simp add: sample_def)
  then show ?thesis by (rule sample_loop_length)
qed

text \<open>
  Claim C7. A call of \<^verbatim>\<open>run_mcmc\<close> that returns appends to the trace exactly the
  \<open>Niter\<close> pairs the generator yields, in order, after the entries already there; and
  \<^verbatim>\<open>results\<close> returns the two lists of the trace, entry \<open>k\<close> of the one belonging to
  entry \<open>k\<close> of the other, of equal length when they were so before the call.
\<close>

theorem run_mcmc_trace_growth:
  assumes run: "run_mcmc S G Niter logprior_nz pos_init thin mh_steps s = (S', Inr s')"
  shows "\<exists>ys. length ys = Niter
       \<and> fst (sample S G Niter logprior_nz pos_init thin mh_steps s) = ys
       \<and> samples S' = samples S @ map fst ys
       \<and> samples_lnp S' = samples_lnp S @ map snd ys
       \<and> pdfs S' = pdfs S
       \<and> results S' = (samples S', samples_lnp S')
       \<and> (\<forall>k<Niter. (fst (results S') ! (length (samples S) + k),
                       snd (results S') ! (length (samples_lnp S) + k)) = ys ! k)
       \<and> (length (samples S) = length (samples_lnp S)
            \<longrightarrow> length (fst (results S')) = length (snd (results S')))"
proof -
  obtain ys r where sm: "sample S G Niter logprior_nz pos_init thin mh_steps s = (ys, r)"
    by (cases "sample S G Niter logprior_nz pos_init thin mh_steps s")
  with run have r: "r = Inr s'"
    and S': "S' = S\<lparr>samples := samples S @ map fst ys,
                    samples_lnp := samples_lnp S @ map snd ys\<rparr>"
    by (simp_all add: run_mcmc_sample)
  from sm r have len: "length ys = Niter" by (simp add: sample_length)
  have "(fst (results S') ! (length (samples S) + k),
         snd (results S') ! (length (samples_lnp S) + k)) = ys ! k" if "k < Niter" for k
    using that len by (simp add: results_def S' nth_append)
  with sm len show ?thesis
    by (simp add: S' results_def)
qed

lemma demo_run_completes:
  "run_mcmc (init_sampler demo_pdfs) demo_rstate (Suc (Suc 0)) None None (Suc 0) (Suc 0) 0
     = (fst demo_run, Inr 6)"
proof -
  have "demo_run = (fst demo_run, Inr 6)"
    by (simp add: demo_run_eval)
  then show ?thesis
    unfolding demo_run_def .
qed

theorem run_mcmc_trace_growth_witness:
  "run_mcmc (init_sampler demo_pdfs) demo_rstate (Suc (Suc 0)) None None (Suc 0) (Suc 0) 0
     = (fst demo_run, Inr 6)
   \<and> length (samples (fst demo_run)) = Suc (Suc 0)
   \<and> results (fst demo_run) = (samples (fst demo_run), samples_lnp (fst demo_run))
   \<and> length (fst (results (fst demo_run))) = length (snd (results (fst demo_run)))"
proof -
  from run_mcmc_trace_growth [OF demo_run_completes] obtain ys :: "(vec \<times> fl) list" where
    l: "length ys = Suc (Suc 0)"
    and s: "samples (fst demo_run) = samples (init_sampler demo_pdfs) @ map fst ys"
    and r: "results (fst demo_run) = (samples (fst demo_run), samples_lnp (fst demo_run))"
    and e: "length (samples (init_sampler demo_pdfs)) = length (samples_lnp (init_sampler demo_pdfs))
       \<longrightarrow> length (fst (results (fst demo_run))) = length (snd (results (fst demo_run)))"
    by blast
  have i: "samples (init_sampler demo_pdfs) = []" "samples_lnp (init_sampler demo_pdfs) = []"
    by (simp_all add: init_sampler_def)
  from s l have "length (samples (fst demo_run)) = Suc (Suc 0)"
    unfolding i by simp
  moreover from e have "length (fst (results (fst demo_run))) = length (snd (results (fst demo_run)))"
    unfolding i by simp
  ultimately show ?thesis
    using demo_run_completes r by blast
qed

text \<open>
  Claim C3 fails on the code. \<^verbatim>\<open>run_mcmc\<close> resolves the last sample of the trace into
  its local \<^verbatim>\<open>pos\<close>, but hands \<^verbatim>\<open>pos_init\<close> to the generator, which starts from the
  stacked PDFs when it is \<open>None\<close>. On the sampler left by the demonstration run, a further
  run of one iteration without Gibbs steps records the stacked PDFs and not the last
  sample.
\<close>

theorem run_mcmc_ignores_last_sample:
  "run_mcmc_pos (fst demo_run) None = [Fin (99980001 / 200000000), Fin (100019999 / 200000000)]
   \<and> samples (fst (run_mcmc (fst demo_run) demo_rstate (Suc 0) None None 0 0 6))
     = samples (fst demo_run) @ [[Fin (1 / 2), Fin (1 / 2)]]
   \<and> stacked (pdfs (fst demo_run)) = [Fin (1 / 2), Fin (1 / 2)]"
  by (simp add: demo_run_eval run_mcmc_pos_def run_mcmc_def sample_def sample_init_def
      sample_start_def stacked_def sum_axis0_def sum_all_def vdiv_def resolve_prior_def
      demo_pdfs_def loglike_nz_def nz_invalid_def np_dot_def inner_def pair_perturb_def
      add_perturb_def ll_return_def sample_iteration_def upt_conv_Cons)

section \<open>The cached overlaps and the log-posterior along a run\<close>




















section \<open>The adaptive proposal scale\<close>













end
